theory Spec2Isabelle
  imports Main
begin

text \<open>
  The normalisation and distribution core of the telemetry streaming
  extension: the event classifier and the statistics normaliser of
  \<^verbatim>\<open>normalize.js\<close>, the handler that reconciles the system pollers with a
  configuration, and the start of the event listener. Each function of the
  sources is a function here, every exception it may throw a value of a sum
  type, every object it builds a property list in the order JavaScript
  enumerates it.
\<close>

section \<open>JavaScript strings\<close>

text \<open>
  The string primitives of JavaScript that \<^verbatim>\<open>normalize.js\<close> calls, on
  \<^typ>\<open>string\<close>: \<^verbatim>\<open>String.prototype.includes\<close>,
  \<^verbatim>\<open>split\<close> with a string separator, \<^verbatim>\<open>replace\<close> with a string
  pattern (first occurrence only) and \<^verbatim>\<open>replace\<close> with a global
  one-character regular expression (every occurrence).
\<close>

text \<open>\<^verbatim>\<open>s.startsWith(p)\<close>.\<close>

fun starts_with :: "string \<Rightarrow> string \<Rightarrow> bool" where
  "starts_with s [] = True"
| "starts_with [] (p # ps) = False"
| "starts_with (c # cs) (p # ps) = (c = p \<and> starts_with cs ps)"

text \<open>\<^verbatim>\<open>s.includes(p)\<close>: \<open>p\<close> is a literal substring of \<open>s\<close>.\<close>

fun js_includes :: "string \<Rightarrow> string \<Rightarrow> bool" where
  "js_includes [] p = (p = [])"
| "js_includes (c # cs) p = (starts_with (c # cs) p \<or> js_includes cs p)"

text \<open>
  \<^verbatim>\<open>s.replace(p, '')\<close> with a string \<open>p\<close>: the first occurrence of \<open>p\<close>
  is removed, wherever it stands; a string without \<open>p\<close> is returned as it is.
\<close>

fun remove_first :: "string \<Rightarrow> string \<Rightarrow> string" where
  "remove_first p [] = []"
| "remove_first p (c # cs) =
     (if starts_with (c # cs) p then drop (length p) (c # cs) else c # remove_first p cs)"

text \<open>\<^verbatim>\<open>s.replace(/c/g, '')\<close>: every occurrence of the character is removed.\<close>

definition remove_all :: "char \<Rightarrow> string \<Rightarrow> string" where
  "remove_all c s = filter (\<lambda>x. x \<noteq> c) s"

text \<open>
  \<^verbatim>\<open>s.split(sep)\<close> for a one-character separator, as a scan that keeps the
  piece read so far: the result always has at least one piece, and
  \<^verbatim>\<open>''.split(',')\<close> is \<^verbatim>\<open>['']\<close>.
\<close>

fun split_char_acc :: "char \<Rightarrow> string \<Rightarrow> string \<Rightarrow> string list" where
  "split_char_acc sep acc [] = [rev acc]"
| "split_char_acc sep acc (c # cs) =
     (if c = sep then rev acc # split_char_acc sep [] cs
      else split_char_acc sep (c # acc) cs)"

definition split_char :: "char \<Rightarrow> string \<Rightarrow> string list" where
  "split_char sep s = split_char_acc sep [] s"



section \<open>JavaScript objects\<close>

text \<open>
  An object is the list of its own properties in the order \<^verbatim>\<open>Object.keys\<close>
  enumerates them: first the keys that are array indices (canonical decimal
  numerals below \<open>2^32 - 1\<close>) in ascending numeric order, then every other key in
  the order of creation. \<open>obj_set\<close> is the assignment \<^verbatim>\<open>ret[k] = v\<close>: an
  existing property keeps its place and takes the new value, a new property is
  created at its place in the enumeration order. The key \<^verbatim>\<open>__proto__\<close> and
  the members an object inherits from \<^verbatim>\<open>Object.prototype\<close> are outside the
  model.
\<close>

definition digit_of :: "char \<Rightarrow> int option" where
  "digit_of c = map_of (zip ''0123456789'' [0, 1, 2, 3, 4, 5, 6, 7, 8, 9]) c"

fun digits_val :: "int \<Rightarrow> string \<Rightarrow> int option" where
  "digits_val n [] = Some n"
| "digits_val n (c # cs) =
     (case digit_of c of None \<Rightarrow> None | Some d \<Rightarrow> digits_val (10 * n + d) cs)"

definition array_index :: "string \<Rightarrow> int option" where
  "array_index s =
     (if s = [] \<or> (hd s = CHR ''0'' \<and> length s \<noteq> 1) \<or> 10 < length s then None
      else case digits_val 0 s of
             None \<Rightarrow> None
           | Some n \<Rightarrow> if n < 4294967295 then Some n else None)"

text \<open>\<open>key_before k k'\<close>: a new key \<open>k\<close> is enumerated before the existing key \<open>k'\<close>.\<close>

definition key_before :: "string \<Rightarrow> string \<Rightarrow> bool" where
  "key_before k k' =
     (case array_index k of
        None \<Rightarrow> False
      | Some i \<Rightarrow> (case array_index k' of None \<Rightarrow> True | Some j \<Rightarrow> i < j))"

fun obj_insert :: "string \<Rightarrow> 'a \<Rightarrow> (string \<times> 'a) list \<Rightarrow> (string \<times> 'a) list" where
  "obj_insert k v [] = [(k, v)]"
| "obj_insert k v ((k', v') # ps) =
     (if key_before k k' then (k, v) # (k', v') # ps else (k', v') # obj_insert k v ps)"

fun obj_update :: "string \<Rightarrow> 'a \<Rightarrow> (string \<times> 'a) list \<Rightarrow> (string \<times> 'a) list" where
  "obj_update k v [] = []"
| "obj_update k v ((k', v') # ps) =
     (if k' = k then (k, v) # ps else (k', v') # obj_update k v ps)"

definition obj_set :: "(string \<times> 'a) list \<Rightarrow> string \<Rightarrow> 'a \<Rightarrow> (string \<times> 'a) list" where
  "obj_set ps k v = (if k \<in> set (map fst ps) then obj_update k v ps else obj_insert k v ps)"

text \<open>An object built by assigning the given properties one after the other to \<^verbatim>\<open>{}\<close>.\<close>

definition obj_of :: "(string \<times> 'a) list \<Rightarrow> (string \<times> 'a) list" where
  "obj_of kvs = foldl (\<lambda>ret (k, v). obj_set ret k v) [] kvs"

section \<open>Errors\<close>

text \<open>
  A JavaScript exception is a value: \<open>TypeError\<close> is what the runtime throws on a
  property read from \<^verbatim>\<open>null\<close> or \<^verbatim>\<open>undefined\<close> and on a call
  of something that is no function, \<open>Error msg\<close> is \<^verbatim>\<open>new Error(msg)\<close>.
\<close>

datatype error = TypeError | Error string

text \<open>
  The text \<^verbatim>\<open>${e}\<close> of an exception inside a message; the runtime's own
  wording of a \<open>TypeError\<close> is left out.
\<close>

fun error_string :: "error \<Rightarrow> string" where
  "error_string TypeError = ''TypeError''"
| "error_string (Error msg) = ''Error: '' @ msg"

section \<open>The event classifier: \<^verbatim>\<open>formatAsJson\<close>\<close>

type_synonym event_record = "(string \<times> string) list"

text \<open>
  The body of the \<^verbatim>\<open>forEach\<close> over the comma-separated segments. A
  segment without \<^verbatim>\<open>=\<close> makes \<^verbatim>\<open>keySplit[1]\<close> undefined, and
  the call of \<^verbatim>\<open>replace\<close> on it throws; the record \<^verbatim>\<open>ret\<close> keeps what
  the earlier segments wrote, so the loop returns it together with the exception.
\<close>

fun formatSegments :: "string list \<Rightarrow> event_record \<Rightarrow> event_record \<times> error option" where
  "formatSegments [] ret = (ret, None)"
| "formatSegments (i # rest) ret =
     (case split_char CHR ''='' i of
        k0 # k1 # _ \<Rightarrow> formatSegments rest (obj_set ret k0 (remove_all CHR 0x22 k1))
      | _ \<Rightarrow> (ret, Some TypeError))"

text \<open>
  \<^verbatim>\<open>formatAsJson\<close> returns the record and, as the second component, the
  lines it hands to \<^verbatim>\<open>logger.error\<close> (the catch block).
\<close>

definition formatAsJson :: "string \<Rightarrow> event_record \<times> string list" where
  "formatAsJson data =
     (let dataToFormat = remove_all CHR 0x0A data;
          baseSplit = split_char CHR '','' dataToFormat
      in case formatSegments baseSplit [] of
           (ret, None) \<Rightarrow> (ret, [])
         | (ret, Some e) \<Rightarrow> (ret, [''formatAsJson error: '' @ error_string e]))"

definition normalizeEvent :: "string \<Rightarrow> event_record \<times> string list" where
  "normalizeEvent data = formatAsJson data"

section \<open>JSON values\<close>

text \<open>
  The trees the normalisation works on are JSON values. Numbers are kept as
  integers: the code only tests them for truthiness and prints them as keys.
  Strings are sequences of characters.
  The value \<^verbatim>\<open>undefined\<close> is no JSON value; a property read that yields it
  is \<open>None\<close> in the model.
\<close>

datatype jsval =
    JNull
  | JBool bool
  | JNum int
  | JStr string
  | JArr "jsval list"
  | JObj "(string \<times> jsval) list"

text \<open>JavaScript truthiness, as \<^verbatim>\<open>if (x)\<close> and \<^verbatim>\<open>x && y\<close> test it.\<close>

fun truthy :: "jsval \<Rightarrow> bool" where
  "truthy JNull = False"
| "truthy (JBool b) = b"
| "truthy (JNum n) = (n \<noteq> 0)"
| "truthy (JStr s) = (s \<noteq> [])"
| "truthy (JArr xs) = True"
| "truthy (JObj ps) = True"

text \<open>Decimal numerals, for array indices used as keys and for numbers printed as keys.\<close>

definition digit_char :: "nat \<Rightarrow> char" where
  "digit_char d = ''0123456789'' ! d"

fun string_of_nat :: "nat \<Rightarrow> string" where
  "string_of_nat n =
     (if n < 10 then [digit_char n] else string_of_nat (n div 10) @ [digit_char (n mod 10)])"

declare string_of_nat.simps [simp del]

definition string_of_int :: "int \<Rightarrow> string" where
  "string_of_int i = (if i < 0 then CHR ''-'' # string_of_nat (nat (- i)) else string_of_nat (nat i))"

text \<open>\<^verbatim>\<open>xs.join(',')\<close> on strings.\<close>

fun join_comma :: "string list \<Rightarrow> string" where
  "join_comma [] = []"
| "join_comma [s] = s"
| "join_comma (s # t # ss) = s @ CHR '','' # join_comma (t # ss)"

text \<open>
  The string a value turns into when it is used as a property key or inside a
  template literal. Inside an array \<^verbatim>\<open>null\<close> prints as the empty string.
\<close>

fun js_to_string :: "jsval \<Rightarrow> string" where
  "js_to_string JNull = ''null''"
| "js_to_string (JBool b) = (if b then ''true'' else ''false'')"
| "js_to_string (JNum n) = string_of_int n"
| "js_to_string (JStr s) = s"
| "js_to_string (JArr xs) =
     join_comma (map (\<lambda>x. if x = JNull then [] else js_to_string x) xs)"
| "js_to_string (JObj ps) = ''[object Object]''"

text \<open>
  \<^verbatim>\<open>Object.keys(x)\<close> paired with the values \<^verbatim>\<open>x[k]\<close>, for a value of
  any type: the properties of an object, the elements of an array under their
  indices, the characters of a string under theirs; numbers and booleans have
  no keys.
\<close>

definition indexed :: "'a list \<Rightarrow> (string \<times> 'a) list" where
  "indexed xs = zip (map string_of_nat [0..<length xs]) xs"

fun own_props :: "jsval \<Rightarrow> (string \<times> jsval) list" where
  "own_props (JObj ps) = ps"
| "own_props (JArr xs) = indexed xs"
| "own_props (JStr s) = indexed (map (\<lambda>c. JStr [c]) s)"
| "own_props v = []"

text \<open>
  Running a \<^verbatim>\<open>forEach\<close> whose body assigns \<^verbatim>\<open>ret[k] = f(...)\<close>, or
  pushes \<^verbatim>\<open>ret.push(f(...))\<close>, where \<open>f\<close> may throw: the results are taken
  in order, and the first exception leaves the loop.
\<close>

fun assign_all :: "(string \<times> (error + 'a)) list \<Rightarrow> (string \<times> 'a) list \<Rightarrow> error + (string \<times> 'a) list" where
  "assign_all [] ret = Inr ret"
| "assign_all ((k, r) # rest) ret =
     (case r of Inl e \<Rightarrow> Inl e | Inr v \<Rightarrow> assign_all rest (obj_set ret k v))"

fun push_all :: "(error + 'a) list \<Rightarrow> 'a list \<Rightarrow> error + 'a list" where
  "push_all [] ret = Inr ret"
| "push_all (r # rest) ret =
     (case r of Inl e \<Rightarrow> Inl e | Inr v \<Rightarrow> push_all rest (ret @ [v]))"

section \<open>Renaming keys by pattern: \<^verbatim>\<open>renameKeysInData\<close>\<close>

text \<open>
  A regular expression is the function \<^verbatim>\<open>k.match(pattern)\<close> computes: no
  match, or the array of the match and its capture groups, where a group that
  took no part in the match is undefined. A pattern-table entry is a regular
  expression, or an object \<^verbatim>\<open>{ pattern, group }\<close> whose group may be left
  out. The table is the list of its entries in the order of \<^verbatim>\<open>Object.keys\<close>.
\<close>

type_synonym regex = "string \<Rightarrow> string option list option"

datatype pattern_entry = Regex regex | PatternGroup regex "nat option"

type_synonym patterns = "(string \<times> pattern_entry) list"

fun pattern_of :: "pattern_entry \<Rightarrow> regex" where
  "pattern_of (Regex r) = r"
| "pattern_of (PatternGroup r g) = r"

fun group_of :: "pattern_entry \<Rightarrow> nat" where
  "group_of (Regex r) = 0"
| "group_of (PatternGroup r g) = (case g of None \<Rightarrow> 0 | Some n \<Rightarrow> if n \<noteq> 0 then n else 0)"

text \<open>\<^verbatim>\<open>checkForMatch[group]\<close>: undefined beyond the end of the array.\<close>

definition match_group :: "string option list \<Rightarrow> nat \<Rightarrow> string option" where
  "match_group m g = (if g < length m then m ! g else None)"

text \<open>
  One round of the inner \<^verbatim>\<open>forEach\<close> over the pattern table, on the pair
  \<^verbatim>\<open>(renameKey, renamedKey)\<close>.
\<close>

fun checkPattern :: "string \<Rightarrow> bool \<times> string option \<Rightarrow> string \<times> pattern_entry \<Rightarrow> bool \<times> string option" where
  "checkPattern k (renameKey, renamedKey) (pK, entry) =
     (if js_includes k pK
      then (case pattern_of entry k of
              Some checkForMatch \<Rightarrow> (True, match_group checkForMatch (group_of entry))
            | None \<Rightarrow> (renameKey, renamedKey))
      else (renameKey, renamedKey))"

text \<open>
  The key under which the value of \<open>k\<close> is stored. An undefined
  \<^verbatim>\<open>renamedKey\<close> becomes the property name \<^verbatim>\<open>undefined\<close>.
\<close>

definition targetKey :: "string \<Rightarrow> patterns \<Rightarrow> string" where
  "targetKey k pats =
     (case foldl (checkPattern k) (False, None) pats of
        (True, Some renamedKey) \<Rightarrow> renamedKey
      | (True, None) \<Rightarrow> ''undefined''
      | (False, _) \<Rightarrow> k)"

text \<open>
  \<^verbatim>\<open>typeof null\<close> is \<^verbatim>\<open>'object'\<close>, so \<^verbatim>\<open>null\<close> enters the branch
  for objects and \<^verbatim>\<open>Object.keys(null)\<close> throws.
\<close>

fun renameKeysInData :: "jsval \<Rightarrow> patterns \<Rightarrow> error + jsval" where
  "renameKeysInData (JObj ps) pats =
     map_sum id JObj
       (assign_all (map (\<lambda>(k, v). (targetKey k pats, renameKeysInData v pats)) ps) [])"
| "renameKeysInData JNull pats = Inl TypeError"
| "renameKeysInData data pats = Inr data"

section \<open>The tree reducer: \<^verbatim>\<open>reduceData\<close>\<close>

text \<open>
  The options of \<^verbatim>\<open>reduceData\<close>: \<^verbatim>\<open>convertArrayToMap\<close>, when given, is
  an object with a \<^verbatim>\<open>keyName\<close> and an optional \<^verbatim>\<open>keyNamePrefix\<close>.
\<close>

record catm_options =
  keyName :: string
  keyNamePrefix :: "string option"

record reduce_options =
  convertArrayToMap :: "catm_options option"

text \<open>
  Modelled from the spec: \<^verbatim>\<open>util.convertArrayToMap\<close> lives in
  \<^verbatim>\<open>util.js\<close>, which is not among the sources. The spec: the array becomes a
  keyed object, each element's key-field value, optionally prefixed, becomes
  the new key, and the element keeps all its fields. An element without the
  field contributes the key \<^verbatim>\<open>undefined\<close>, the string JavaScript makes of a
  missing property.
\<close>

definition field_string :: "jsval \<Rightarrow> string \<Rightarrow> string" where
  "field_string i key =
     (case i of
        JObj ps \<Rightarrow> (case map_of ps key of Some v \<Rightarrow> js_to_string v | None \<Rightarrow> ''undefined'')
      | _ \<Rightarrow> ''undefined'')"

definition util_convertArrayToMap :: "jsval list \<Rightarrow> string \<Rightarrow> string option \<Rightarrow> (string \<times> jsval) list" where
  "util_convertArrayToMap data key keyPrefix =
     obj_of (map (\<lambda>i. ((case keyPrefix of
                            Some p \<Rightarrow> p @ field_string i key
                          | None \<Rightarrow> field_string i key), i)) data)"

text \<open>
  The loop over \<^verbatim>\<open>keysToReduce\<close>: the first well-known key whose value is
  defined, in an object with exactly one key, yields the wrapped item.
\<close>

definition keysToReduce :: "string list" where
  "keysToReduce = [''nestedStats'', ''value'', ''description'', ''color'']"

fun wrapped_item :: "string list \<Rightarrow> (string \<times> jsval) list \<Rightarrow> jsval option" where
  "wrapped_item [] ps = None"
| "wrapped_item (w # ws) ps =
     (case map_of ps w of
        Some item \<Rightarrow> if length ps = 1 then Some item else wrapped_item ws ps
      | None \<Rightarrow> wrapped_item ws ps)"

text \<open>
  The new object the \<^verbatim>\<open>entries\<close> branch builds: every child of
  \<^verbatim>\<open>data.entries\<close> under its key with the first occurrence of
  \<^verbatim>\<open>https://localhost/\<close> and then of \<^verbatim>\<open>mgmt/tm/\<close> removed. All
  other properties of \<^verbatim>\<open>data\<close> are dropped.
\<close>

definition strip_key :: "string \<Rightarrow> string" where
  "strip_key k = remove_first ''mgmt/tm/'' (remove_first ''https://localhost/'' k)"

definition expand_entries :: "jsval \<Rightarrow> (string \<times> jsval) list" where
  "expand_entries entries = obj_of (map (\<lambda>(k, v). (strip_key k, v)) (own_props entries))"

text \<open>
  The measure that decreases along the calls of \<^verbatim>\<open>reduceData\<close>. An object
  pays for its \<^verbatim>\<open>entries\<close> key, since expanding
  \<^verbatim>\<open>{entries: 'a'}\<close> to \<^verbatim>\<open>{'0': 'a'}\<close> removes nothing but that key.
\<close>

fun jsize :: "jsval \<Rightarrow> nat" where
  "jsize (JStr s) = length s"
| "jsize (JArr xs) = 3 + sum_list (map jsize xs)"
| "jsize (JObj ps) =
     1 + sum_list (map (\<lambda>p. jsize (snd p)) ps) + (if ''entries'' \<in> set (map fst ps) then 1 else 0)"
| "jsize v = 0"

definition vsum :: "(string \<times> jsval) list \<Rightarrow> nat" where
  "vsum ps = sum_list (map (\<lambda>p. jsize (snd p)) ps)"

lemma vsum_simps [simp]: "vsum [] = 0" "vsum ((k, v) # ps) = jsize v + vsum ps"
  by (simp_all add: vsum_def)

lemma vsum_obj_update: "vsum (obj_update k v ps) \<le> vsum ps + jsize v"
  by (induction ps) auto

lemma vsum_obj_insert: "vsum (obj_insert k v ps) = vsum ps + jsize v"
  by (induction ps) auto

lemma vsum_obj_set: "vsum (obj_set ps k v) \<le> vsum ps + jsize v"
  by (simp add: obj_set_def vsum_obj_update vsum_obj_insert)

lemma vsum_foldl_obj_set:
  "vsum (foldl (\<lambda>ret (k, v). obj_set ret k v) acc kvs) \<le> vsum acc + vsum kvs"
proof (induction kvs arbitrary: acc)
  case Nil
  then show ?case by simp
next
  case (Cons kv kvs)
  obtain k v where kv: "kv = (k, v)" by (cases kv)
  have "vsum (foldl (\<lambda>ret (k, v). obj_set ret k v) (obj_set acc k v) kvs)
          \<le> vsum (obj_set acc k v) + vsum kvs"
    by (rule Cons.IH)
  also have "\<dots> \<le> vsum acc + jsize v + vsum kvs"
    using vsum_obj_set [of acc k v] by simp
  finally show ?case by (simp add: kv)
qed

lemma vsum_obj_of: "vsum (obj_of kvs) \<le> vsum kvs"
  using vsum_foldl_obj_set [of "[]" kvs] by (simp add: obj_of_def)

lemma jsize_JObj_le: "jsize (JObj ps) \<le> 2 + vsum ps"
  by (simp add: vsum_def)

lemma jsize_member: "(k, v) \<in> set ps \<Longrightarrow> jsize v \<le> vsum ps"
  by (induction ps) auto

lemma map_of_jsize: "map_of ps k = Some v \<Longrightarrow> jsize v \<le> vsum ps"
  by (auto dest: map_of_SomeD jsize_member)

lemma wrapped_item_jsize: "wrapped_item ws ps = Some item \<Longrightarrow> jsize item \<le> vsum ps"
  by (induction ws) (auto split: option.splits if_splits dest: map_of_jsize)

text \<open>
  \<^verbatim>\<open>data.entries && !Array.isArray(data)\<close> on an object, and
  \<^verbatim>\<open>catm && catm.keyName\<close>.
\<close>

definition truthy_entries :: "(string \<times> jsval) list \<Rightarrow> jsval option" where
  "truthy_entries ps =
     (case map_of ps ''entries'' of
        Some e \<Rightarrow> if truthy e then Some e else None
      | None \<Rightarrow> None)"

definition catm_active :: "reduce_options \<Rightarrow> catm_options option" where
  "catm_active options =
     (case convertArrayToMap options of
        Some catm \<Rightarrow> if keyName catm \<noteq> [] then Some catm else None
      | None \<Rightarrow> None)"

lemma keys_obj_update: "map fst (obj_update k v ps) = map fst ps"
  by (induction ps) auto

lemma keys_obj_insert: "set (map fst (obj_insert k v ps)) = insert k (set (map fst ps))"
proof (induction ps)
  case Nil
  then show ?case by simp
next
  case (Cons p ps)
  obtain k' v' where p: "p = (k', v')" by (cases p)
  show ?case
  proof (cases "key_before k k'")
    case True
    then show ?thesis by (simp add: p)
  next
    case False
    have "set (map fst (obj_insert k v (p # ps))) = insert k' (set (map fst (obj_insert k v ps)))"
      using False by (simp add: p)
    also have "\<dots> = insert k' (insert k (set (map fst ps)))"
      by (simp only: Cons.IH)
    finally show ?thesis by (auto simp: p)
  qed
qed

lemma keys_obj_set: "set (map fst (obj_set ps k v)) = insert k (set (map fst ps))"
proof (cases "k \<in> set (map fst ps)")
  case True
  then show ?thesis
    by (simp only: obj_set_def if_True keys_obj_update) auto
next
  case False
  then show ?thesis
    by (simp only: obj_set_def if_False keys_obj_insert)
qed

lemma keys_foldl_obj_set:
  "set (map fst (foldl (\<lambda>ret (k, v). obj_set ret k v) acc kvs))
     = set (map fst acc) \<union> set (map fst kvs)"
proof (induction kvs arbitrary: acc)
  case Nil
  then show ?case by simp
next
  case (Cons kv kvs)
  obtain k v where kv: "kv = (k, v)" by (cases kv)
  have "set (map fst (foldl (\<lambda>ret (k, v). obj_set ret k v) (obj_set acc k v) kvs))
          = set (map fst (obj_set acc k v)) \<union> set (map fst kvs)"
    by (rule Cons.IH)
  then show ?case
    unfolding kv keys_obj_set by auto
qed

lemma keys_obj_of: "set (map fst (obj_of kvs)) = set (map fst kvs)"
  using keys_foldl_obj_set [of "[]" kvs] by (simp add: obj_of_def)

lemma digit_char_in: "d < 10 \<Longrightarrow> digit_char d \<in> set ''0123456789''"
  unfolding digit_char_def by (rule nth_mem) simp

lemma string_of_nat_digits: "set (string_of_nat n) \<subseteq> set ''0123456789''"
proof (induction n rule: string_of_nat.induct)
  case (1 n)
  show ?case
  proof (cases "n < 10")
    case True
    then show ?thesis
      using digit_char_in [of n] by (subst string_of_nat.simps) simp
  next
    case False
    have "digit_char (n mod 10) \<in> set ''0123456789''"
      by (rule digit_char_in) simp
    with False 1 show ?thesis
      by (subst string_of_nat.simps) simp
  qed
qed

lemma remove_first_absent:
  "p \<noteq> [] \<Longrightarrow> hd p \<notin> set s \<Longrightarrow> remove_first p s = s"
proof (induction s)
  case Nil
  then show ?case by simp
next
  case (Cons c cs)
  then have "\<not> starts_with (c # cs) p"
    by (cases p) auto
  with Cons show ?case by simp
qed

lemma strip_key_digits:
  assumes "set k \<subseteq> set ''0123456789''"
  shows "strip_key k = k"
proof -
  have h: "CHR ''h'' \<notin> set ''0123456789''" and m: "CHR ''m'' \<notin> set ''0123456789''"
    by simp_all
  from h assms have "CHR ''h'' \<notin> set k" by blast
  then have 1: "remove_first ''https://localhost/'' k = k"
    by (intro remove_first_absent) simp_all
  from m assms have "CHR ''m'' \<notin> set k" by blast
  then have 2: "remove_first ''mgmt/tm/'' k = k"
    by (intro remove_first_absent) simp_all
  show ?thesis by (simp only: strip_key_def 1 2)
qed

lemma keys_indexed: "k \<in> set (map fst (indexed xs)) \<Longrightarrow> set k \<subseteq> set ''0123456789''"
proof -
  assume "k \<in> set (map fst (indexed xs))"
  then have "k \<in> set (map string_of_nat [0..<length xs])"
    by (simp add: indexed_def)
  then obtain n where "k = string_of_nat n" by auto
  then show ?thesis using string_of_nat_digits by simp
qed

lemma vsum_indexed: "vsum (indexed xs) = sum_list (map jsize xs)"
proof -
  have "map snd (indexed xs) = xs"
    by (simp add: indexed_def)
  then have "map jsize (map snd (indexed xs)) = map jsize xs"
    by simp
  then show ?thesis by (simp add: vsum_def comp_def)
qed

lemma vsum_map_key: "vsum (map (\<lambda>(k, v). (f k, v)) ps) = vsum ps"
  by (induction ps) auto

lemma vsum_expand_entries: "vsum (expand_entries e) \<le> vsum (own_props e)"
  unfolding expand_entries_def
  using vsum_obj_of [of "map (\<lambda>(k, v). (strip_key k, v)) (own_props e)"]
  by (simp only: vsum_map_key)

lemma keys_expand_string:
  assumes "k \<in> set (map fst (expand_entries (JStr s)))"
  shows "set k \<subseteq> set ''0123456789''"
proof -
  let ?ix = "indexed (map (\<lambda>c. JStr [c]) s)"
  from assms have "k \<in> set (map fst (map (\<lambda>(k, v). (strip_key k, v)) ?ix))"
    by (simp only: expand_entries_def keys_obj_of own_props.simps)
  then obtain k0 where k0: "k0 \<in> set (map fst ?ix)" and k: "k = strip_key k0"
    by force
  from k0 have d: "set k0 \<subseteq> set ''0123456789''"
    by (rule keys_indexed)
  then have "strip_key k0 = k0" by (rule strip_key_digits)
  with k d show ?thesis by simp
qed

lemma entries_not_index: "''entries'' \<notin> set (map fst (expand_entries (JStr s)))"
proof
  assume "''entries'' \<in> set (map fst (expand_entries (JStr s)))"
  then have "set ''entries'' \<subseteq> set ''0123456789''"
    by (rule keys_expand_string)
  then show False by simp
qed

lemma jsize_expand_entries:
  assumes "map_of ps ''entries'' = Some e" and "truthy e"
  shows "jsize (JObj (expand_entries e)) < jsize (JObj ps)"
proof -
  from assms(1) have le: "jsize e \<le> vsum ps"
    by (rule map_of_jsize)
  from assms(1) have "(''entries'', e) \<in> set ps"
    by (rule map_of_SomeD)
  then have "''entries'' \<in> set (map fst ps)"
    by force
  then have big: "jsize (JObj ps) = 2 + vsum ps"
    by (simp add: vsum_def)
  have "jsize (JObj (expand_entries e)) < 2 + jsize e"
  proof (cases e)
    case JNull
    with assms(2) show ?thesis by simp
  next
    case (JBool b)
    then show ?thesis by (simp add: expand_entries_def obj_of_def)
  next
    case (JNum n)
    then show ?thesis by (simp add: expand_entries_def obj_of_def)
  next
    case (JStr s)
    have "vsum (expand_entries (JStr s)) \<le> vsum (indexed (map (\<lambda>c. JStr [c]) s))"
      using vsum_expand_entries [of "JStr s"] by simp
    also have "\<dots> = length s"
      unfolding vsum_indexed by (induction s) simp_all
    finally have "vsum (expand_entries (JStr s)) \<le> length s" .
    moreover have "jsize (JObj (expand_entries (JStr s))) = 1 + vsum (expand_entries (JStr s))"
      using entries_not_index [of s] by (simp add: vsum_def)
    ultimately show ?thesis by (simp add: JStr)
  next
    case (JArr xs)
    have "vsum (expand_entries (JArr xs)) \<le> vsum (indexed xs)"
      using vsum_expand_entries [of "JArr xs"] by simp
    then have "vsum (expand_entries (JArr xs)) \<le> sum_list (map jsize xs)"
      by (simp only: vsum_indexed)
    moreover have "jsize (JObj (expand_entries (JArr xs))) \<le> 2 + vsum (expand_entries (JArr xs))"
      by (rule jsize_JObj_le)
    ultimately show ?thesis by (simp add: JArr)
  next
    case (JObj qs)
    have "vsum (expand_entries (JObj qs)) \<le> vsum qs"
      using vsum_expand_entries [of "JObj qs"] by simp
    moreover have "jsize (JObj (expand_entries (JObj qs))) \<le> 2 + vsum (expand_entries (JObj qs))"
      by (rule jsize_JObj_le)
    moreover have "1 + vsum qs \<le> jsize (JObj qs)"
      by (simp add: vsum_def)
    ultimately show ?thesis unfolding JObj by linarith
  qed
  with le big show ?thesis by linarith
qed

lemma jsize_truthy_entries:
  "truthy_entries ps = Some e \<Longrightarrow> jsize (JObj (expand_entries e)) < jsize (JObj ps)"
proof -
  assume a: "truthy_entries ps = Some e"
  then have "map_of ps ''entries'' = Some e" and "truthy e"
    by (simp_all add: truthy_entries_def split: option.splits if_splits)
  then show ?thesis by (rule jsize_expand_entries)
qed

lemma jsize_convertArrayToMap:
  "jsize (JObj (util_convertArrayToMap xs key keyPrefix)) < jsize (JArr xs)"
proof -
  let ?kvs = "map (\<lambda>i. ((case keyPrefix of
                 Some p \<Rightarrow> p @ field_string i key
               | None \<Rightarrow> field_string i key), i)) xs"
  have "vsum ?kvs = sum_list (map jsize xs)"
    by (simp add: vsum_def comp_def)
  then have "vsum (obj_of ?kvs) \<le> sum_list (map jsize xs)"
    using vsum_obj_of [of ?kvs] by simp
  moreover have "jsize (JObj (obj_of ?kvs)) \<le> 2 + vsum (obj_of ?kvs)"
    by (rule jsize_JObj_le)
  ultimately show ?thesis
    by (simp add: util_convertArrayToMap_def)
qed

lemma jsize_wrapped_item:
  "wrapped_item ws ps = Some item \<Longrightarrow> jsize item < jsize (JObj ps)"
  using wrapped_item_jsize [of ws ps item] by (simp add: vsum_def)

lemma jsize_prop: "(k, v) \<in> set ps \<Longrightarrow> jsize v < jsize (JObj ps)"
  using jsize_member [of k v ps] by (simp add: vsum_def)

lemma jsize_elem: "x \<in> set xs \<Longrightarrow> jsize x < jsize (JArr xs)"
  by (induction xs) auto

text \<open>
  \<^verbatim>\<open>reduceData\<close>. A property read from \<^verbatim>\<open>null\<close> throws, so
  \<^verbatim>\<open>null\<close> anywhere in the tree makes the call fail. Strings, numbers and
  booleans have none of the well-known keys and no \<^verbatim>\<open>entries\<close>, and are
  returned as they are.
\<close>

function reduceData :: "jsval \<Rightarrow> reduce_options \<Rightarrow> error + jsval" where
  "reduceData (JObj ps) options =
     (case wrapped_item keysToReduce ps of
        Some item \<Rightarrow> reduceData item options
      | None \<Rightarrow>
          (case truthy_entries ps of
             Some entries \<Rightarrow> reduceData (JObj (expand_entries entries)) options
           | None \<Rightarrow>
               map_sum id JObj
                 (assign_all (map (\<lambda>(k, v). (k, reduceData v options)) ps) [])))"
| "reduceData (JArr xs) options =
     (case catm_active options of
        Some catm \<Rightarrow>
          reduceData (JObj (util_convertArrayToMap xs (keyName catm) (keyNamePrefix catm))) options
      | None \<Rightarrow> map_sum id JArr (push_all (map (\<lambda>i. reduceData i options) xs) []))"
| "reduceData JNull options = Inl TypeError"
| "reduceData (JBool b) options = Inr (JBool b)"
| "reduceData (JNum n) options = Inr (JNum n)"
| "reduceData (JStr s) options = Inr (JStr s)"
  by pat_completeness auto
termination
proof (relation "measure (\<lambda>(data, options). jsize data)")
  show "wf (measure (\<lambda>(data, options). jsize data))" by simp
next
  fix ps :: "(string \<times> jsval) list" and options :: reduce_options and item
  assume "wrapped_item keysToReduce ps = Some item"
  then show "((item, options), JObj ps, options) \<in> measure (\<lambda>(data, options). jsize data)"
    by (simp add: jsize_wrapped_item del: jsize.simps)
next
  fix ps :: "(string \<times> jsval) list" and options :: reduce_options and entries
  assume "truthy_entries ps = Some entries"
  then show "((JObj (expand_entries entries), options), JObj ps, options)
               \<in> measure (\<lambda>(data, options). jsize data)"
    by (simp add: jsize_truthy_entries del: jsize.simps)
next
  fix ps :: "(string \<times> jsval) list" and options :: reduce_options and x k v
  assume "x \<in> set ps" and "(k, v) = x"
  then show "((v, options), JObj ps, options) \<in> measure (\<lambda>(data, options). jsize data)"
    using jsize_prop [of k v ps] by (simp del: jsize.simps)
next
  fix xs :: "jsval list" and options :: reduce_options and catm :: catm_options
  show "((JObj (util_convertArrayToMap xs (keyName catm) (keyNamePrefix catm)), options),
          JArr xs, options) \<in> measure (\<lambda>(data, options). jsize data)"
    by (simp add: jsize_convertArrayToMap del: jsize.simps)
next
  fix xs :: "jsval list" and options :: reduce_options and x
  assume "x \<in> set xs"
  then show "((x, options), JArr xs, options) \<in> measure (\<lambda>(data, options). jsize data)"
    by (simp add: jsize_elem del: jsize.simps)
qed

section \<open>The key transformer and the facade: \<^verbatim>\<open>normalizeData\<close>\<close>








record custom_function =
  cf_name :: string
  cf_args :: "(string \<times> jsval) list option"

record options = reduce_options +
  key :: "string option"
  filterByKeys :: "string list option"
  renameKeysByPattern :: "patterns option"
  customFunction :: "custom_function option"





section \<open>The poller scheduler: the handler of \<^verbatim>\<open>configWorker.on('change')\<close>\<close>

text \<open>
  The configuration of one system poller, as far as the handler reads it:
  \<^verbatim>\<open>enable\<close> (which may be left out) and \<^verbatim>\<open>interval\<close>.
\<close>

record poller_config =
  enable :: "bool option"
  interval :: nat

text \<open>
  The state of the scheduler: the registry \<^verbatim>\<open>pollerIDs\<close> of the module,
  from poller names to timer handles, and the timers of the runtime that are
  live, each with the configuration and the interval it fires with.
\<close>

record scheduler =
  pollerIDs :: "(string \<times> nat) list"
  timers :: "(nat \<times> poller_config \<times> nat) list"
  next_timer :: nat

text \<open>
  Modelled from the spec: \<^verbatim>\<open>util.start\<close>, \<^verbatim>\<open>util.stop\<close> and
  \<^verbatim>\<open>util.update\<close> live in \<^verbatim>\<open>util.js\<close>, which is not among the sources.
  The spec: a job is triggered on a fixed interval; stopping cancels the timer;
  an update swaps interval and configuration, the handle being recreated.
\<close>

definition util_start :: "poller_config \<Rightarrow> nat \<Rightarrow> scheduler \<Rightarrow> nat \<times> scheduler" where
  "util_start config ival s =
     (next_timer s,
      s\<lparr>timers := timers s @ [(next_timer s, config, ival)], next_timer := Suc (next_timer s)\<rparr>)"

definition util_stop :: "nat \<Rightarrow> scheduler \<Rightarrow> scheduler" where
  "util_stop tid s = s\<lparr>timers := filter (\<lambda>t. fst t \<noteq> tid) (timers s)\<rparr>"

definition util_update :: "nat \<Rightarrow> poller_config \<Rightarrow> nat \<Rightarrow> scheduler \<Rightarrow> nat \<times> scheduler" where
  "util_update tid config ival s = util_start config ival (util_stop tid s)"

text \<open>\<^verbatim>\<open>delete pollerIDs[k]\<close> and \<^verbatim>\<open>pollerIDs[k] = id\<close>.\<close>

definition delete_poller :: "string \<Rightarrow> scheduler \<Rightarrow> scheduler" where
  "delete_poller k s = s\<lparr>pollerIDs := filter (\<lambda>p. fst p \<noteq> k) (pollerIDs s)\<rparr>"

definition set_poller :: "string \<Rightarrow> nat \<times> scheduler \<Rightarrow> scheduler" where
  "set_poller k r = (snd r)\<lparr>pollerIDs := obj_set (pollerIDs (snd r)) k (fst r)\<rparr>"

text \<open>
  The branch without system pollers: every poller of the registry is stopped
  and deleted.
\<close>

definition stop_all :: "scheduler \<Rightarrow> scheduler" where
  "stop_all s = foldl (\<lambda>s' (k, tid). delete_poller k (util_stop tid s')) s (pollerIDs s)"

text \<open>
  The body of the loop over the names of the snapshot: a poller with
  \<^verbatim>\<open>enable === false\<close> is stopped when it runs, a running poller is
  updated, any other is started.
\<close>

fun reconcile_poller :: "scheduler \<Rightarrow> string \<times> poller_config \<Rightarrow> scheduler" where
  "reconcile_poller s (k, config) =
     (if enable config = Some False
      then (case map_of (pollerIDs s) k of
              Some tid \<Rightarrow> delete_poller k (util_stop tid s)
            | None \<Rightarrow> s)
      else (case map_of (pollerIDs s) k of
              Some tid \<Rightarrow> set_poller k (util_update tid config (interval config) s)
            | None \<Rightarrow> set_poller k (util_start config (interval config) s)))"

text \<open>
  The handler. \<open>systemPollers\<close> is \<^verbatim>\<open>config[CLASS_NAME]\<close>, or \<open>None\<close> when
  the configuration or the class is missing. The sweep of stale trace writers
  that ends the handler works on the tracer registry of \<^verbatim>\<open>util.js\<close> and
  touches neither \<^verbatim>\<open>pollerIDs\<close> nor a timer; it is left out.
\<close>

definition on_change :: "(string \<times> poller_config) list option \<Rightarrow> scheduler \<Rightarrow> scheduler" where
  "on_change systemPollers s =
     (case systemPollers of
        None \<Rightarrow> stop_all s
      | Some sp \<Rightarrow> foldl reconcile_poller s sp)"

text \<open>
  A poller is active when the registry holds a handle for its name and the
  timer of that handle is live; the snapshot wants a poller when it names it
  and does not disable it.
\<close>

definition poller_active :: "scheduler \<Rightarrow> string \<Rightarrow> bool" where
  "poller_active s k =
     (case map_of (pollerIDs s) k of
        Some tid \<Rightarrow> tid \<in> set (map fst (timers s))
      | None \<Rightarrow> False)"

definition wanted :: "(string \<times> poller_config) list option \<Rightarrow> string \<Rightarrow> bool" where
  "wanted systemPollers k =
     (case systemPollers of
        None \<Rightarrow> False
      | Some sp \<Rightarrow> (case map_of sp k of Some config \<Rightarrow> enable config \<noteq> Some False | None \<Rightarrow> False))"

definition idle :: scheduler where
  "idle = \<lparr>pollerIDs = [], timers = [], next_timer = 0\<rparr>"

section \<open>The ingestion listener: \<^verbatim>\<open>start\<close>\<close>

text \<open>
  The part of Node's \<^verbatim>\<open>net\<close> module the listener relies on.
  \<^verbatim>\<open>createServer\<close> and \<^verbatim>\<open>listen\<close> may throw at once (a port out of
  range); a failure to bind (the port is taken) and every later socket failure
  is reported after \<^verbatim>\<open>start\<close> has returned, by the event \<^verbatim>\<open>'error'\<close> on
  the server, whose listeners the event loop then calls. A server carries its
  listeners for \<^verbatim>\<open>'error'\<close>; a listener returns or throws.
\<close>

record net_runtime =
  createServer_throws :: "error option"
  listen_throws :: "error option"

record net_server =
  error_listeners :: "(error \<Rightarrow> error + unit) list"

text \<open>
  \<^verbatim>\<open>start\<close>: the server it returns (undefined when \<^verbatim>\<open>createServer\<close>
  threw) and the lines given to \<^verbatim>\<open>logger.error\<close>. The listener it registers
  for \<^verbatim>\<open>'error'\<close> is \<^verbatim>\<open>(err) => { throw err; }\<close>. The handler of
  the configuration change calls \<^verbatim>\<open>start\<close> once, inside a \<^verbatim>\<open>try\<close> of
  its own that has ended as well when the server reports an error later.
\<close>

definition start :: "net_runtime \<Rightarrow> nat \<Rightarrow> net_server option \<times> string list" where
  "start rt port =
     (case createServer_throws rt of
        Some e \<Rightarrow> (None, [''Unable to start event listener: '' @ error_string e])
      | None \<Rightarrow>
          (case listen_throws rt of
             Some e \<Rightarrow>
               (Some \<lparr>error_listeners = []\<rparr>, [''Unable to start event listener: '' @ error_string e])
           | None \<Rightarrow> (Some \<lparr>error_listeners = [\<lambda>err. Inl err]\<rparr>, [])))"

text \<open>
  \<^verbatim>\<open>server.emit('error', err)\<close>, as the event loop runs it: without a
  listener the emitter throws the error itself, otherwise it calls the
  listeners in order and an exception of a listener leaves \<^verbatim>\<open>emit\<close>.
\<close>

fun call_listeners :: "(error \<Rightarrow> error + unit) list \<Rightarrow> error \<Rightarrow> error + unit" where
  "call_listeners [] err = Inr ()"
| "call_listeners (h # hs) err =
     (case h err of Inl e \<Rightarrow> Inl e | Inr u \<Rightarrow> call_listeners hs err)"

definition emit_error :: "net_server \<Rightarrow> error \<Rightarrow> error + unit" where
  "emit_error server err =
     (if error_listeners server = [] then Inl err
      else call_listeners (error_listeners server) err)"

text \<open>
  What becomes of the process when the server reports an error after
  \<^verbatim>\<open>start\<close> returned: the call of \<^verbatim>\<open>emit\<close> stands outside the
  \<^verbatim>\<open>try\<close> of \<^verbatim>\<open>start\<close>, so an exception that leaves it is uncaught and
  ends the process; otherwise the process goes on with its log.
\<close>

datatype process = Running "string list" | Crashed error

definition report_error :: "net_server option \<times> string list \<Rightarrow> error \<Rightarrow> process" where
  "report_error started err =
     (case fst started of
        None \<Rightarrow> Running (snd started)
      | Some server \<Rightarrow>
          (case emit_error server err of
             Inl e \<Rightarrow> Crashed e
           | Inr u \<Rightarrow> Running (snd started)))"

section \<open>Notions of the statements\<close>

text \<open>
  What one segment means: its key is the text before the first \<^verbatim>\<open>=\<close>, its
  value the text between the first \<^verbatim>\<open>=\<close> and the second (or the end), with
  every double quote removed. A segment without \<^verbatim>\<open>=\<close> has no value.
\<close>

definition segment_key :: "string \<Rightarrow> string" where
  "segment_key seg = takeWhile (\<lambda>c. c \<noteq> CHR ''='') seg"

definition segment_value :: "string \<Rightarrow> string option" where
  "segment_value seg =
     (case dropWhile (\<lambda>c. c \<noteq> CHR ''='') seg of
        [] \<Rightarrow> None
      | _ # rest \<Rightarrow> Some (remove_all CHR 0x22 (takeWhile (\<lambda>c. c \<noteq> CHR ''='') rest)))"

text \<open>A segment is well formed when it holds a \<^verbatim>\<open>=\<close>.\<close>

definition well_formed :: "string \<Rightarrow> bool" where
  "well_formed seg = (CHR ''='' \<in> set seg)"

text \<open>
  The segments of a line, and the pairs of the segments that come before the
  first one without a value.
\<close>

fun leading_pairs :: "string list \<Rightarrow> (string \<times> string) list" where
  "leading_pairs [] = []"
| "leading_pairs (seg # segs) =
     (case segment_value seg of
        None \<Rightarrow> []
      | Some v \<Rightarrow> (segment_key seg, v) # leading_pairs segs)"

definition segments :: "string \<Rightarrow> string list" where
  "segments line = split_char CHR '','' (remove_all CHR 0x0A line)"



text \<open>
  The regular expressions \<^verbatim>\<open>/a/\<close> and \<^verbatim>\<open>/b/\<close>, for the examples: a
  match is the matched letter, without groups.
\<close>

definition regex_a :: regex where
  "regex_a k = (if js_includes k ''a'' then Some [Some ''a''] else None)"


text \<open>The arrays of a tree that are reached through objects alone.\<close>

fun arrays_of :: "jsval \<Rightarrow> jsval list set" where
  "arrays_of (JArr xs) = {xs}"
| "arrays_of (JObj ps) = (\<Union>v \<in> set (map snd ps). arrays_of v)"
| "arrays_of v = {}"



text \<open>A poller configuration for the examples: enabled, every 60 seconds.\<close>

definition every_minute :: poller_config where
  "every_minute = \<lparr>enable = None, interval = 60\<rparr>"







section \<open>The event classifier, verified\<close>

text \<open>
  \<^verbatim>\<open>split\<close> cuts at every separator: the first piece is the text before the
  first separator, the rest is the split of what follows it.
\<close>

lemma split_char_acc_shape:
  "split_char_acc sep acc s =
     (rev acc @ takeWhile (\<lambda>c. c \<noteq> sep) s) #
       (case dropWhile (\<lambda>c. c \<noteq> sep) s of [] \<Rightarrow> [] | _ # rest \<Rightarrow> split_char_acc sep [] rest)"
  by (induction s arbitrary: acc) auto

lemma split_char_shape:
  "split_char sep s =
     takeWhile (\<lambda>c. c \<noteq> sep) s #
       (case dropWhile (\<lambda>c. c \<noteq> sep) s of [] \<Rightarrow> [] | _ # rest \<Rightarrow> split_char sep rest)"
  unfolding split_char_def using split_char_acc_shape [of sep "[]" s] by simp

lemma formatSegments_step:
  "formatSegments (i # rest) ret =
     (case segment_value i of
        None \<Rightarrow> (ret, Some TypeError)
      | Some v \<Rightarrow> formatSegments rest (obj_set ret (segment_key i) v))"
proof (cases "dropWhile (\<lambda>c. c \<noteq> CHR ''='') i")
  case Nil
  have "split_char CHR ''='' i = [takeWhile (\<lambda>c. c \<noteq> CHR ''='') i]"
    by (subst split_char_shape) (simp add: Nil)
  moreover have "segment_value i = None"
    by (simp add: segment_value_def Nil)
  ultimately show ?thesis by simp
next
  case (Cons c r)
  have 1: "split_char CHR ''='' i = takeWhile (\<lambda>c. c \<noteq> CHR ''='') i # split_char CHR ''='' r"
    by (subst split_char_shape) (simp add: Cons)
  obtain more where 2: "split_char CHR ''='' r = takeWhile (\<lambda>c. c \<noteq> CHR ''='') r # more"
    using split_char_shape [of "CHR ''=''" r] by blast
  have 3: "segment_value i = Some (remove_all CHR 0x22 (takeWhile (\<lambda>c. c \<noteq> CHR ''='') r))"
    by (simp add: segment_value_def Cons)
  show ?thesis
    by (simp add: 1 2 3 segment_key_def)
qed

lemma segment_value_None: "segment_value seg = None \<longleftrightarrow> \<not> well_formed seg"
proof (cases "dropWhile (\<lambda>c. c \<noteq> CHR ''='') seg")
  case Nil
  have "segment_value seg = None"
    unfolding segment_value_def Nil by simp
  moreover from Nil have "CHR ''='' \<notin> set seg"
    using dropWhile_eq_Nil_conv [of "\<lambda>c. c \<noteq> CHR ''=''" seg] by auto
  ultimately show ?thesis by (simp add: well_formed_def)
next
  case (Cons c r)
  have "segment_value seg \<noteq> None"
    unfolding segment_value_def Cons by simp
  moreover from Cons have "CHR ''='' \<in> set seg"
    using dropWhile_eq_Nil_conv [of "\<lambda>c. c \<noteq> CHR ''=''" seg] by auto
  ultimately show ?thesis by (simp add: well_formed_def)
qed

lemma formatSegments_pairs:
  "formatSegments segs ret =
     (foldl (\<lambda>r (k, v). obj_set r k v) ret (leading_pairs segs),
      if list_all well_formed segs then None else Some TypeError)"
proof (induction segs arbitrary: ret)
  case Nil
  then show ?case by simp
next
  case (Cons i rest)
  show ?case
  proof (cases "segment_value i")
    case None
    then have "\<not> well_formed i" by (simp add: segment_value_None)
    with None show ?thesis by (simp add: formatSegments_step del: formatSegments.simps)
  next
    case (Some v)
    then have "well_formed i"
      using segment_value_None [of i] by auto
    with Some show ?thesis by (simp add: formatSegments_step Cons.IH del: formatSegments.simps)
  qed
qed

lemma leading_pairs_takeWhile:
  "leading_pairs (takeWhile well_formed segs) = leading_pairs segs"
proof (induction segs)
  case Nil
  then show ?case by simp
next
  case (Cons i rest)
  then show ?case
    using segment_value_None [of i] by (auto split: option.splits)
qed

lemma list_all_takeWhile: "list_all P (takeWhile P xs)"
  by (induction xs) auto

lemma formatSegments_prefix:
  "formatSegments segs ret =
     (fst (formatSegments (takeWhile well_formed segs) ret),
      if list_all well_formed segs then None else Some TypeError)"
  by (simp add: formatSegments_pairs [of segs] formatSegments_pairs [of "takeWhile well_formed segs"]
        leading_pairs_takeWhile)

lemma formatSegments_prefix_ok:
  "snd (formatSegments (takeWhile well_formed segs) ret) = None"
  by (simp add: formatSegments_pairs [of "takeWhile well_formed segs"] list_all_takeWhile)

text \<open>
  Claim C4. \<^verbatim>\<open>formatAsJson\<close> (and so \<^verbatim>\<open>normalizeEvent\<close>) returns for every
  line: the record is the one the segments before the first malformed segment
  write, on their own without an exception, and a line is logged exactly when
  some segment is malformed. The line \<^verbatim>\<open>A="1",B="2"\<close> gives
  \<^verbatim>\<open>{A:"1", B:"2"}\<close> and logs nothing; the line \<^verbatim>\<open>A="1",Bnoequals\<close>
  gives the partial record \<^verbatim>\<open>{A:"1"}\<close> and logs.
\<close>

theorem formatAsJson_fail_soft:
  "formatAsJson line =
     (fst (formatSegments (takeWhile well_formed (segments line)) []),
      if list_all well_formed (segments line) then [] else [''formatAsJson error: TypeError''])
   \<and> snd (formatSegments (takeWhile well_formed (segments line)) []) = None
   \<and> formatAsJson ''A=\"1\",B=\"2\"'' = ([(''A'', ''1''), (''B'', ''2'')], [])
   \<and> formatAsJson ''A=\"1\",Bnoequals'' = ([(''A'', ''1'')], [''formatAsJson error: TypeError''])"
proof -
  have 1: "formatAsJson line =
     (fst (formatSegments (takeWhile well_formed (segments line)) []),
      if list_all well_formed (segments line) then [] else [''formatAsJson error: TypeError''])"
    unfolding formatAsJson_def Let_def segments_def [symmetric]
    by (subst formatSegments_prefix) simp
  have 2: "snd (formatSegments (takeWhile well_formed (segments line)) []) = None"
    by (rule formatSegments_prefix_ok)
  have 3: "formatAsJson ''A=\"1\",B=\"2\"'' = ([(''A'', ''1''), (''B'', ''2'')], [])"
    by code_simp
  have 4: "formatAsJson ''A=\"1\",Bnoequals'' = ([(''A'', ''1'')], [''formatAsJson error: TypeError''])"
    by code_simp
  from 1 2 3 4 show ?thesis by blast
qed

text \<open>
  Claim C5, as amended. The line loses its newlines and is split on
  \<^verbatim>\<open>,\<close>; each segment is split on every \<^verbatim>\<open>=\<close>; the key is the text
  before the first \<^verbatim>\<open>=\<close> and the value the text between the first and the
  second, all double quotes removed. What follows a second \<^verbatim>\<open>=\<close> is lost.
\<close>

theorem formatAsJson_segments:
  "fst (formatAsJson line) = obj_of (leading_pairs (segments line))"
  unfolding formatAsJson_def Let_def segments_def [symmetric] obj_of_def
  by (simp add: formatSegments_pairs split: prod.splits)

text \<open>
  Claim C5 as stated fails: the segment \<^verbatim>\<open>KEY="a=b"\<close> maps \<^verbatim>\<open>KEY\<close> to
  \<^verbatim>\<open>a\<close>, not to \<^verbatim>\<open>a=b\<close>.
\<close>

theorem formatAsJson_first_equals_counterexample:
  "fst (formatAsJson ''KEY=\"a=b\"'') = [(''KEY'', ''a'')]
   \<and> fst (formatAsJson ''KEY=\"a=b\"'') \<noteq> [(''KEY'', ''a=b'')]"
  by code_simp

section \<open>The tree reducer on the end-to-end scenario\<close>

text \<open>
  Claim C6. The tree of the scenario reduces to
  \<^verbatim>\<open>{"sys/x/0.0/stats": "5"}\<close>, whatever the options: the
  \<^verbatim>\<open>entries\<close> wrappers are expanded, the key loses
  \<^verbatim>\<open>https://localhost/\<close> and \<^verbatim>\<open>mgmt/tm/\<close>, and the wrappers
  \<^verbatim>\<open>nestedStats\<close>, \<^verbatim>\<open>value\<close> and \<^verbatim>\<open>description\<close> are unwrapped.
\<close>

theorem reduceData_scenario:
  "reduceData
     (JObj [(''entries'', JObj [(''https://localhost/mgmt/tm/sys/x/0.0/stats'',
        JObj [(''nestedStats'', JObj [(''entries'',
          JObj [(''value'', JObj [(''description'', JStr ''5'')])])])])])]) opts
     = Inr (JObj [(''sys/x/0.0/stats'', JStr ''5'')])
   \<and> strip_key ''https://localhost/mgmt/tm/sys/x/0.0/stats'' = ''sys/x/0.0/stats''"
  by (simp add: keysToReduce_def truthy_entries_def expand_entries_def strip_key_def
        obj_of_def obj_set_def)

section \<open>Renaming keys, verified\<close>






lemma set_obj_update: "set (obj_update k v ps) \<subseteq> insert (k, v) (set ps)"
  by (induction ps) (auto split: if_splits)

lemma set_obj_insert: "set (obj_insert k v ps) = insert (k, v) (set ps)"
  by (induction ps) (auto split: if_splits)

lemma set_obj_set: "set (obj_set ps k v) \<subseteq> insert (k, v) (set ps)"
  using set_obj_update [of k v ps] set_obj_insert [of k v ps]
  by (simp add: obj_set_def)

lemma assign_all_members:
  "assign_all kvs ret = Inr r \<Longrightarrow> (k', v') \<in> set r \<Longrightarrow>
     (k', v') \<in> set ret \<or> (k', Inr v') \<in> set kvs"
proof (induction kvs arbitrary: ret)
  case Nil
  then show ?case by simp
next
  case (Cons kv kvs)
  obtain k x where kv: "kv = (k, x)" by (cases kv)
  from Cons.prems(1) obtain v where x: "x = Inr v" and rest: "assign_all kvs (obj_set ret k v) = Inr r"
    by (auto simp: kv split: sum.splits)
  from Cons.IH [OF rest Cons.prems(2)]
  have "(k', v') \<in> set (obj_set ret k v) \<or> (k', Inr v') \<in> set kvs" .
  then show ?case
  proof
    assume "(k', v') \<in> set (obj_set ret k v)"
    with set_obj_set [of ret k v] have "(k', v') = (k, v) \<or> (k', v') \<in> set ret"
      by blast
    then show ?thesis
      unfolding kv x by auto
  next
    assume "(k', Inr v') \<in> set kvs"
    then show ?thesis by simp
  qed
qed

lemma renameKeysInData_arrays:
  "renameKeysInData t pats = Inr t' \<Longrightarrow> arrays_of t' \<subseteq> arrays_of t"
proof (induction t pats arbitrary: t' rule: renameKeysInData.induct)
  case (1 ps pats)
  let ?kvs = "map (\<lambda>(k, v). (targetKey k pats, renameKeysInData v pats)) ps"
  from "1.prems" obtain r where r: "assign_all ?kvs [] = Inr r" and t': "t' = JObj r"
    by (cases "assign_all ?kvs []") auto
  have sub: "arrays_of w \<subseteq> arrays_of (JObj ps)" if w: "(k', w) \<in> set r" for k' w
  proof -
    from assign_all_members [OF r w] have "(k', Inr w) \<in> set ?kvs"
      by simp
    then obtain k v where kv: "(k, v) \<in> set ps" and rn: "renameKeysInData v pats = Inr w"
      by auto
    from "1.IH" [OF kv refl rn] have "arrays_of w \<subseteq> arrays_of v" .
    moreover from kv have "arrays_of v \<subseteq> arrays_of (JObj ps)"
      by force
    ultimately show ?thesis by blast
  qed
  show ?case
  proof
    fix x
    assume "x \<in> arrays_of t'"
    then obtain k' w where "(k', w) \<in> set r" and "x \<in> arrays_of w"
      unfolding t' by auto
    with sub show "x \<in> arrays_of (JObj ps)" by blast
  qed
qed auto

text \<open>
  Claim C10. An array is returned as it is, whatever it holds; and every
  array of the result that is reached through objects is an array of the input,
  unchanged.
\<close>

theorem renameKeysInData_arrays_unchanged:
  "renameKeysInData (JArr xs) pats = Inr (JArr xs)
   \<and> (renameKeysInData t pats = Inr t' \<longrightarrow> arrays_of t' \<subseteq> arrays_of t)"
  using renameKeysInData_arrays [of t pats t'] by simp

theorem renameKeysInData_arrays_unchanged_witness:
  "renameKeysInData (JArr [JObj [(''ab'', JNum 2)]]) [(''a'', Regex regex_a)]
     = Inr (JArr [JObj [(''ab'', JNum 2)]])
   \<and> renameKeysInData (JObj [(''ab'', JArr [JObj [(''ab'', JNum 2)]])]) [(''a'', Regex regex_a)]
     = Inr (JObj [(''a'', JArr [JObj [(''ab'', JNum 2)]])])
   \<and> arrays_of (JObj [(''a'', JArr [JObj [(''ab'', JNum 2)]])])
     \<subseteq> arrays_of (JObj [(''ab'', JArr [JObj [(''ab'', JNum 2)]])])"
proof -
  have e: "renameKeysInData (JObj [(''ab'', JArr [JObj [(''ab'', JNum 2)]])]) [(''a'', Regex regex_a)]
     = Inr (JObj [(''a'', JArr [JObj [(''ab'', JNum 2)]])])"
    by (simp add: regex_a_def match_group_def targetKey_def obj_set_def)
  from renameKeysInData_arrays_unchanged
         [of "[JObj [(''ab'', JNum 2)]]" "[(''a'', Regex regex_a)]"
             "JObj [(''ab'', JArr [JObj [(''ab'', JNum 2)]])]"
             "JObj [(''a'', JArr [JObj [(''ab'', JNum 2)]])]"] e
  show ?thesis by blast
qed

section \<open>The facade, verified\<close>






section \<open>The poller scheduler on a removed name\<close>

text \<open>
  Claim C2 fails on the code. After the pollers \<^verbatim>\<open>A\<close> and \<^verbatim>\<open>B\<close> were
  started, a snapshot that names \<^verbatim>\<open>A\<close> alone leaves \<^verbatim>\<open>B\<close> in the
  registry with its timer live, though the snapshot does not want it. The
  sibling paths do stop it: a snapshot without pollers, and a snapshot that
  disables \<^verbatim>\<open>B\<close>.
\<close>

theorem on_change_keeps_removed_poller:
  "poller_active
     (on_change (Some [(''A'', every_minute)])
        (on_change (Some [(''A'', every_minute), (''B'', every_minute)]) idle)) ''B''
   \<and> \<not> wanted (Some [(''A'', every_minute)]) ''B''
   \<and> \<not> poller_active
        (on_change None (on_change (Some [(''A'', every_minute), (''B'', every_minute)]) idle)) ''B''
   \<and> \<not> poller_active
        (on_change (Some [(''A'', every_minute), (''B'', every_minute\<lparr>enable := Some False\<rparr>)])
           (on_change (Some [(''A'', every_minute), (''B'', every_minute)]) idle)) ''B''"
  by code_simp

section \<open>The ingestion listener on an error event\<close>

text \<open>
  Claim C3 fails on the code. An error the server reports after
  \<^verbatim>\<open>start\<close> returned, a port conflict among them, reaches the listener
  \<^verbatim>\<open>(err) => { throw err; }\<close>, which throws it outside every
  \<^verbatim>\<open>try\<close>: nothing is logged and the exception is uncaught. Only an
  exception thrown by \<^verbatim>\<open>listen\<close> at once is caught and logged.
\<close>

theorem start_error_event_uncaught:
  "report_error (start \<lparr>createServer_throws = None, listen_throws = None\<rparr> port) err = Crashed err
   \<and> start \<lparr>createServer_throws = None, listen_throws = Some e\<rparr> port
       = (Some \<lparr>error_listeners = []\<rparr>, [''Unable to start event listener: '' @ error_string e])"
  by (simp add: report_error_def start_def emit_error_def)

section \<open>Objects in enumeration order\<close>











section \<open>The tree reducer, verified\<close>






























end
